theory Spec2Isabelle
  imports Complex_Main "HOL-Library.Sublist" "HOL-Library.Multiset"
begin

section \<open>Conventions of the embedding\<close>

text \<open>
  JavaScript numbers that carry distances, angles and altitudes are modelled as \<open>real\<close>
  (finite values); \<open>Date\<close> objects are modelled by their millisecond time value, an
  \<open>int\<close>. In \<open>findCloseApproaches\<close> the running minimum starts at \<open>Infinity\<close> and is
  compared with the threshold, so both are numbers that may be \<open>Infinity\<close>, a datatype of
  its own. The positions of the concrete runs of the two searches are chosen so that the
  double arithmetic of \<open>calculateDistance\<close> gives the same distance as the arithmetic over
  the reals. The SGP4 primitive
  \<open>satellite.propagate\<close> and the look-angle chain of \<open>satellite.js\<close> are external: they
  are parameters of the model, and each may throw, which is a constructor of its result.
\<close>

section \<open>collisionService.js\<close>

subsection \<open>Positions\<close>

datatype vec3 = Vec3 (vx: real) (vy: real) (vz: real)

text \<open>What \<open>satellite.propagate(satrec, date)\<close> can do: throw, return an object whose
  \<open>position\<close> is falsy, or return an ECI position.\<close>

datatype propagated = PropagateThrows | PositionMissing | PositionEci vec3

record 'r sat =
  noradId :: int
  altitude :: "real option"
  satrec :: 'r

definition SCALE_FACTOR :: real where
  "SCALE_FACTOR = 1 / 1000"

definition eciToThreeJs :: "vec3 \<Rightarrow> vec3" where
  "eciToThreeJs eciCoords =
     Vec3 (vx eciCoords * SCALE_FACTOR) (vz eciCoords * SCALE_FACTOR) (- vy eciCoords * SCALE_FACTOR)"

text \<open>\<open>getPositionAtTime\<close>: the \<open>try\<close>/\<open>catch\<close> turns a throw into \<open>null\<close>, as does a
  missing position.\<close>

definition getPositionAtTime :: "('r \<Rightarrow> int \<Rightarrow> propagated) \<Rightarrow> 'r \<Rightarrow> int \<Rightarrow> vec3 option" where
  "getPositionAtTime propagate sr date =
     (case propagate sr date of
        PropagateThrows \<Rightarrow> None
      | PositionMissing \<Rightarrow> None
      | PositionEci p \<Rightarrow> Some (eciToThreeJs p))"

subsection \<open>Thresholds, risk and probability\<close>

definition CRITICAL :: real where "CRITICAL = 1"
definition HIGH :: real where "HIGH = 5"
definition MODERATE :: real where "MODERATE = 10"
definition LOW :: real where "LOW = 25"

definition calculateDistance ::
  "('r \<Rightarrow> int \<Rightarrow> propagated) \<Rightarrow> 'r sat \<Rightarrow> 'r sat \<Rightarrow> int \<Rightarrow> real option" where
  "calculateDistance propagate sat1 sat2 t =
     (case (getPositionAtTime propagate (satrec sat1) t, getPositionAtTime propagate (satrec sat2) t) of
        (Some pos1, Some pos2) \<Rightarrow>
          (let dx = (vx pos1 - vx pos2) / SCALE_FACTOR;
               dy = (vy pos1 - vy pos2) / SCALE_FACTOR;
               dz = (vz pos1 - vz pos2) / SCALE_FACTOR
           in Some (sqrt (dx * dx + dy * dy + dz * dz)))
      | _ \<Rightarrow> None)"

definition getRiskLevel :: "real \<Rightarrow> string" where
  "getRiskLevel d =
     (if d < CRITICAL then ''critical''
      else if d < HIGH then ''high''
      else if d < MODERATE then ''moderate''
      else if d < LOW then ''low''
      else ''safe'')"

text \<open>The second parameter (default 10) is never read by the body.\<close>

definition calculateCollisionProbability :: "real \<Rightarrow> real \<Rightarrow> real" where
  "calculateCollisionProbability d relativeVelocity =
     (if d < CRITICAL then min 0.99 (1 - (d / CRITICAL) * 0.5)
      else if d < HIGH then 0.1 + (HIGH - d) / HIGH * 0.4
      else if d < MODERATE then 0.01 + (MODERATE - d) / MODERATE * 0.09
      else if d < LOW then 0.001 + (LOW - d) / LOW * 0.009
      else 0.0001)"

subsection \<open>Results of the two searches\<close>

text \<open>A number that may be \<open>Infinity\<close>, with the order of the comparison operators:
  \<open>Infinity\<close> is above every finite number and \<open>Infinity \<le> Infinity\<close> holds.\<close>

datatype jsNumber = Finite real | Infinity

instantiation jsNumber :: linorder
begin

fun less_eq_jsNumber :: "jsNumber \<Rightarrow> jsNumber \<Rightarrow> bool" where
  "less_eq_jsNumber (Finite a) (Finite b) = (a \<le> b)"
| "less_eq_jsNumber a Infinity = True"
| "less_eq_jsNumber Infinity (Finite b) = False"

definition less_jsNumber :: "jsNumber \<Rightarrow> jsNumber \<Rightarrow> bool" where
  "less_jsNumber a b = (a \<le> b \<and> \<not> b \<le> a)"

instance
proof
  fix a b c :: jsNumber
  show "(a < b) = (a \<le> b \<and> \<not> b \<le> a)" by (simp add: less_jsNumber_def)
  show "a \<le> a" by (cases a) simp_all
  show "a \<le> b \<Longrightarrow> b \<le> c \<Longrightarrow> a \<le> c" by (cases a; cases b; cases c) simp_all
  show "a \<le> b \<Longrightarrow> b \<le> a \<Longrightarrow> a = b" by (cases a; cases b) simp_all
  show "a \<le> b \<or> b \<le> a" by (cases a; cases b) auto
qed

end

text \<open>An entry pushed by \<open>findCloseApproaches\<close>; \<open>findAllConjunctions\<close> pushes the same
  object with a \<open>probability\<close> added. The field \<open>time\<close> of the source is \<open>atTime\<close> here
  (the samples of a pass have a field \<open>time\<close> of their own); it can be \<open>null\<close> in the
  first, so it is an option. The \<open>distance\<close> of the first is the running minimum, which may
  be \<open>Infinity\<close>; that of the second is a distance \<open>calculateDistance\<close> returned.\<close>

record ('r, 'd) approach =
  satellite1 :: "'r sat"
  satellite2 :: "'r sat"
  distance :: 'd
  atTime :: "int option"
  risk :: string

record 'r conjunction = "('r, real) approach" +
  probability :: real

text \<open>\<open>(sat.altitude || 0)\<close>: a missing altitude counts as 0.\<close>

definition altitudeOrZero :: "'r sat \<Rightarrow> real" where
  "altitudeOrZero s = (case altitude s of None \<Rightarrow> 0 | Some a \<Rightarrow> a)"

text \<open>\<open>xs.slice(0, m)\<close>: a negative \<open>m\<close> counts from the end.\<close>

definition slice0 :: "'a list \<Rightarrow> int \<Rightarrow> 'a list" where
  "slice0 xs m = (if m < 0 then take (nat (int (length xs) + m)) xs else take (nat m) xs)"

subsection \<open>findAllConjunctions\<close>

text \<open>The decimal text of a number, for the template string of the pair key.\<close>

fun digits :: "nat \<Rightarrow> string" where
  "digits n = (if n < 10 then [''0123456789'' ! n] else digits (n div 10) @ [''0123456789'' ! (n mod 10)])"

declare digits.simps [simp del]

definition showInt :: "int \<Rightarrow> string" where
  "showInt i = (if i < 0 then ''-'' @ digits (nat (- i)) else digits (nat i))"

definition pairKey :: "'r sat \<Rightarrow> 'r sat \<Rightarrow> string" where
  "pairKey a b = showInt (noradId a) @ ''-'' @ showInt (noradId b)"

text \<open>The state of the double loop: the list \<open>conjunctions\<close> and the set \<open>checked\<close>.\<close>

type_synonym 'r conjState = "'r conjunction list \<times> string set"

text \<open>The body of the inner loop at indices \<open>i\<close> and \<open>j\<close>; each \<open>continue\<close> returns the
  state as it stands.\<close>

definition conjBody ::
  "('r \<Rightarrow> int \<Rightarrow> propagated) \<Rightarrow> 'r sat list \<Rightarrow> int \<Rightarrow> real \<Rightarrow> nat \<Rightarrow> nat \<Rightarrow> 'r conjState \<Rightarrow> 'r conjState" where
  "conjBody propagate satellites t threshold i j st =
     (let si = satellites ! i; sj = satellites ! j; key = pairKey si sj in
      if key \<in> snd st then st
      else
        let checked = insert key (snd st);
            altDiff = \<bar>altitudeOrZero si - altitudeOrZero sj\<bar>
        in if altDiff > 50 then (fst st, checked)
           else
             (case calculateDistance propagate si sj t of
                None \<Rightarrow> (fst st, checked)
              | Some d \<Rightarrow>
                  if d \<le> threshold
                  then (fst st @
                          [\<lparr>satellite1 = si, satellite2 = sj, distance = d, atTime = Some t,
                            risk = getRiskLevel d,
                            probability = calculateCollisionProbability d 10\<rparr>],
                        checked)
                  else (fst st, checked)))"

definition conjLoop ::
  "('r \<Rightarrow> int \<Rightarrow> propagated) \<Rightarrow> 'r sat list \<Rightarrow> int \<Rightarrow> real \<Rightarrow> 'r conjState" where
  "conjLoop propagate satellites t threshold =
     fold (\<lambda>i. fold (conjBody propagate satellites t threshold i) [Suc i ..< length satellites])
       [0 ..< length satellites] ([], {})"

text \<open>\<open>findAllConjunctions(satellites, {time, threshold, maxResults})\<close>; the sort is the
  stable sort by \<open>distance\<close>.\<close>

definition findAllConjunctions ::
  "('r \<Rightarrow> int \<Rightarrow> propagated) \<Rightarrow> 'r sat list \<Rightarrow> int \<Rightarrow> real \<Rightarrow> int \<Rightarrow> 'r conjunction list" where
  "findAllConjunctions propagate satellites t threshold maxResults =
     slice0 (sort_key distance (fst (conjLoop propagate satellites t threshold))) maxResults"

text \<open>The defaults of the options: \<open>threshold = COLLISION_THRESHOLDS.LOW\<close>, \<open>maxResults = 50\<close>.\<close>

definition findAllConjunctionsDefault ::
  "('r \<Rightarrow> int \<Rightarrow> propagated) \<Rightarrow> 'r sat list \<Rightarrow> int \<Rightarrow> 'r conjunction list" where
  "findAllConjunctionsDefault propagate satellites t = findAllConjunctions propagate satellites t LOW 50"

text \<open>The unordered pair of catalogue numbers a conjunction is about.\<close>

definition pairOf :: "'r conjunction \<Rightarrow> int set" where
  "pairOf c = {noradId (satellite1 c), noradId (satellite2 c)}"

subsection \<open>findCloseApproaches\<close>

definition stepMinutes :: int where "stepMinutes = 5"

text \<open>The loop that fills \<open>times\<close>, from the start to the end inclusive.\<close>

function sampleTimes :: "int \<Rightarrow> int \<Rightarrow> int list" where
  "sampleTimes t endT = (if t \<le> endT then t # sampleTimes (t + stepMinutes * 60 * 1000) endT else [])"
  by pat_completeness auto
termination
  by (relation "measure (\<lambda>(t, endT). nat (endT - t + 1))") (auto simp: stepMinutes_def)

declare sampleTimes.simps [simp del]

text \<open>\<open>getRiskLevel\<close> at a number that may be \<open>Infinity\<close>: the same four tests.\<close>

definition getRiskLevelOf :: "jsNumber \<Rightarrow> string" where
  "getRiskLevelOf d =
     (if d < Finite CRITICAL then ''critical''
      else if d < Finite HIGH then ''high''
      else if d < Finite MODERATE then ''moderate''
      else if d < Finite LOW then ''low''
      else ''safe'')"

text \<open>The scan of one candidate over the sampled times. The running minimum starts at
  \<open>Infinity\<close> with a \<open>null\<close> time; a \<open>null\<close> distance leaves both as they are.\<close>

fun scanTimes ::
  "('r \<Rightarrow> int \<Rightarrow> propagated) \<Rightarrow> 'r sat \<Rightarrow> 'r sat \<Rightarrow> int list \<Rightarrow> jsNumber \<times> int option \<Rightarrow> jsNumber \<times> int option" where
  "scanTimes propagate targetSat candidate [] m = m"
| "scanTimes propagate targetSat candidate (t # ts) (minDistance, minDistanceTime) =
     (case calculateDistance propagate targetSat candidate t of
        None \<Rightarrow> scanTimes propagate targetSat candidate ts (minDistance, minDistanceTime)
      | Some d \<Rightarrow>
          if Finite d < minDistance
          then scanTimes propagate targetSat candidate ts (Finite d, Some t)
          else scanTimes propagate targetSat candidate ts (minDistance, minDistanceTime))"

text \<open>The loop over the candidates, with the test \<open>minDistance \<le> threshold\<close> as it is
  written: nothing asks whether any sample gave a distance.\<close>

fun checkCandidates ::
  "('r \<Rightarrow> int \<Rightarrow> propagated) \<Rightarrow> 'r sat \<Rightarrow> int list \<Rightarrow> jsNumber \<Rightarrow> 'r sat list \<Rightarrow>
   ('r, jsNumber) approach list" where
  "checkCandidates propagate targetSat sampled threshold [] = []"
| "checkCandidates propagate targetSat sampled threshold (candidate # rest) =
     (case scanTimes propagate targetSat candidate sampled (Infinity, None) of
        (minDistance, minDistanceTime) \<Rightarrow>
          if minDistance \<le> threshold
          then \<lparr>satellite1 = targetSat, satellite2 = candidate, distance = minDistance,
                 atTime = minDistanceTime, risk = getRiskLevelOf minDistance\<rparr>
               # checkCandidates propagate targetSat sampled threshold rest
          else checkCandidates propagate targetSat sampled threshold rest)"

definition candidatesOf :: "'r sat \<Rightarrow> 'r sat list \<Rightarrow> 'r sat list" where
  "candidatesOf targetSat allSatellites =
     filter (\<lambda>s. noradId s \<noteq> noradId targetSat
                \<and> \<bar>altitudeOrZero s - altitudeOrZero targetSat\<bar> < 100) allSatellites"

text \<open>\<open>findCloseApproaches(targetSat, allSatellites, {startTime, hoursAhead, threshold,
  maxResults})\<close>, with a whole number of hours. The sort is the stable sort by
  \<open>distance\<close>; the comparator \<open>a.distance - b.distance\<close> is \<open>NaN\<close> on two distances
  \<open>Infinity\<close>, which the sort takes as equal.\<close>

definition findCloseApproaches ::
  "('r \<Rightarrow> int \<Rightarrow> propagated) \<Rightarrow> 'r sat \<Rightarrow> 'r sat list \<Rightarrow> int \<Rightarrow> int \<Rightarrow> jsNumber \<Rightarrow> int \<Rightarrow>
   ('r, jsNumber) approach list" where
  "findCloseApproaches propagate targetSat allSatellites startTime hoursAhead threshold maxResults =
     (let endTime = startTime + hoursAhead * 60 * 60 * 1000;
          sampled = sampleTimes startTime endTime
      in slice0 (sort_key distance
                   (checkCandidates propagate targetSat sampled threshold
                      (candidatesOf targetSat allSatellites)))
           maxResults)"

text \<open>The unordered pair of catalogue numbers the inner loop looks at for the indices
  \<open>i\<close> and \<open>j\<close>, and the pairs one invocation visits, in the order of the double loop.\<close>

definition idPair :: "'r sat list \<Rightarrow> nat \<Rightarrow> nat \<Rightarrow> int set" where
  "idPair satellites i j = {noradId (satellites ! i), noradId (satellites ! j)}"

definition visitedPairs :: "'r sat list \<Rightarrow> int set list" where
  "visitedPairs satellites =
     concat (map (\<lambda>i. map (idPair satellites i) [Suc i ..< length satellites]) [0 ..< length satellites])"

subsection \<open>A small catalogue for concrete runs\<close>

text \<open>Element sets are numbered: 0 and 1 stand 25 km apart, the second displaced along
  the y axis alone, where the double arithmetic of \<open>calculateDistance\<close> returns exactly 25
  as well; 2 has decayed (no position), every other one makes the propagator throw.\<close>

definition fixedOrbit :: "nat \<Rightarrow> int \<Rightarrow> propagated" where
  "fixedOrbit sr t =
     (if sr = 0 then PositionEci (Vec3 7000 0 0)
      else if sr = 1 then PositionEci (Vec3 7000 25 0)
      else if sr = 2 then PositionMissing
      else PropagateThrows)"

definition satA :: "nat sat" where
  "satA = \<lparr>noradId = 25544, altitude = Some 622, satrec = 0\<rparr>"

definition satB :: "nat sat" where
  "satB = \<lparr>noradId = 48274, altitude = Some 622, satrec = 1\<rparr>"

definition satDecayed :: "nat sat" where
  "satDecayed = \<lparr>noradId = 90001, altitude = Some 630, satrec = 2\<rparr>"

text \<open>The band of a distance, as the chain of comparisons shared by \<open>getRiskLevel\<close> and
  \<open>calculateCollisionProbability\<close> cuts it.\<close>

definition sameBand :: "real \<Rightarrow> real \<Rightarrow> bool" where
  "sameBand d1 d2 = (getRiskLevel d1 = getRiskLevel d2)"

section \<open>Pass prediction\<close>

definition MIN_ELEVATION :: real where "MIN_ELEVATION = 10"

definition PREDICTION_WINDOW :: int where "PREDICTION_WINDOW = 24 * 60 * 60 * 1000"

definition TIME_STEP :: int where "TIME_STEP = 60 * 1000"

text \<open>What \<open>getLookAngle\<close> returns, in degrees and km; a stored sample of a pass is the
  same with its \<open>time\<close>. The field \<open>range\<close> of the source is \<open>rangeKm\<close> here.\<close>

record lookAngles =
  azimuth :: real
  elevation :: real
  rangeKm :: real

record point = lookAngles +
  time :: int

subsection \<open>getCardinalDirection\<close>

definition directions :: "string list" where
  "directions = [''N'', ''NNE'', ''NE'', ''ENE'', ''E'', ''ESE'', ''SE'', ''SSE'',
                 ''S'', ''SSW'', ''SW'', ''WSW'', ''W'', ''WNW'', ''NW'', ''NNW'']"

text \<open>\<open>Math.round\<close> rounds to the nearest integer, a half upwards.\<close>

definition mathRound :: "real \<Rightarrow> int" where
  "mathRound v = \<lfloor>v + 1 / 2\<rfloor>"

text \<open>The operator \<open>%\<close> on integers: the remainder has the sign of the dividend.\<close>

definition jsRemainder :: "int \<Rightarrow> int \<Rightarrow> int" where
  "jsRemainder a b = sgn a * (\<bar>a\<bar> mod \<bar>b\<bar>)"

definition directionIndex :: "real \<Rightarrow> int" where
  "directionIndex az = jsRemainder (mathRound (az / 22.5)) 16"

text \<open>An index outside the array reads \<open>undefined\<close>, which is \<open>None\<close>.\<close>

definition getCardinalDirection :: "real \<Rightarrow> string option" where
  "getCardinalDirection az =
     (let index = directionIndex az
      in if 0 \<le> index \<and> index < int (length directions) then Some (directions ! nat index) else None)"

subsection \<open>calculatePasses\<close>

text \<open>The pass object under construction. The four fields written only when the pass is
  closed are \<open>undefined\<close> until then, which is \<open>None\<close>.\<close>

record 'r pass =
  satellite :: "'r sat"
  startTime :: int
  startAzimuth :: real
  startDirection :: "string option"
  maxElevation :: real
  maxElevationTime :: int
  maxAzimuth :: real
  points :: "point list"
  endTime :: "int option"
  endAzimuth :: "real option"
  endDirection :: "string option"
  duration :: "real option"

text \<open>The variables of the loop: \<open>passes\<close>, \<open>inPass\<close> and \<open>currentPass\<close>.\<close>

record 'r scan =
  passes :: "'r pass list"
  inPass :: bool
  currentPass :: "'r pass option"

definition newPass :: "'r sat \<Rightarrow> int \<Rightarrow> lookAngles \<Rightarrow> 'r pass" where
  "newPass s t la =
     \<lparr>satellite = s, startTime = t, startAzimuth = azimuth la,
      startDirection = getCardinalDirection (azimuth la),
      maxElevation = elevation la, maxElevationTime = t, maxAzimuth = azimuth la,
      points = [], endTime = None, endAzimuth = None, endDirection = None, duration = None\<rparr>"

text \<open>The seconds between the start of a pass and the instant \<open>t\<close>.\<close>

definition secondsSince :: "'r pass \<Rightarrow> int \<Rightarrow> real" where
  "secondsSince c t = real_of_int (t - startTime c) / 1000"

text \<open>The branches of the loop body once the look angles of the instant \<open>t\<close> are known. A
  read of a field of \<open>currentPass\<close> while it is \<open>null\<close> throws into the \<open>catch\<close>, which
  leaves the variables as they are.\<close>

definition onLook :: "'r sat \<Rightarrow> int \<Rightarrow> lookAngles \<Rightarrow> 'r scan \<Rightarrow> 'r scan" where
  "onLook s t la st =
     (if elevation la \<ge> MIN_ELEVATION then
        (case (if \<not> inPass st then Some (newPass s t la) else currentPass st) of
           None \<Rightarrow> st
         | Some c \<Rightarrow>
             let c1 = (if elevation la > maxElevation c
                       then c\<lparr>maxElevation := elevation la, maxElevationTime := t,
                              maxAzimuth := azimuth la\<rparr>
                       else c);
                 c2 = c1\<lparr>points := points c1 @
                          [\<lparr>azimuth = azimuth la, elevation = elevation la, rangeKm = rangeKm la,
                            time = t\<rparr>]\<rparr>
             in st\<lparr>inPass := True, currentPass := Some c2\<rparr>)
      else if inPass st then
        (case currentPass st of
           None \<Rightarrow> st
         | Some c \<Rightarrow>
             let c1 = c\<lparr>endTime := Some t, endAzimuth := Some (azimuth la),
                        endDirection := getCardinalDirection (azimuth la),
                        duration := Some (secondsSince c t)\<rparr>
             in \<lparr>passes = (if secondsSince c t \<ge> 60 \<and> maxElevation c1 \<ge> MIN_ELEVATION
                             then passes st @ [c1] else passes st),
                 inPass = False, currentPass = None\<rparr>)
      else st)"

text \<open>One iteration at the instant \<open>t\<close>. The look-angle chain (\<open>gstime\<close>, \<open>eciToEcf\<close>,
  \<open>getLookAngle\<close>) is the parameter \<open>lookAngle\<close>, \<open>None\<close> when it throws. A throw and a
  missing position both leave the variables as they are; the time advances in the loop.\<close>

definition passStep ::
  "('r \<Rightarrow> int \<Rightarrow> propagated) \<Rightarrow> ('o \<Rightarrow> vec3 \<Rightarrow> int \<Rightarrow> lookAngles option) \<Rightarrow>
   'r sat \<Rightarrow> 'o \<Rightarrow> int \<Rightarrow> 'r scan \<Rightarrow> 'r scan" where
  "passStep propagate lookAngle s observerGd t st =
     (case propagate (satrec s) t of
        PropagateThrows \<Rightarrow> st
      | PositionMissing \<Rightarrow> st
      | PositionEci positionEci \<Rightarrow>
          (case lookAngle observerGd positionEci t of
             None \<Rightarrow> st
           | Some la \<Rightarrow> onLook s t la st))"

function passLoop ::
  "('r \<Rightarrow> int \<Rightarrow> propagated) \<Rightarrow> ('o \<Rightarrow> vec3 \<Rightarrow> int \<Rightarrow> lookAngles option) \<Rightarrow>
   'r sat \<Rightarrow> 'o \<Rightarrow> int \<Rightarrow> int \<Rightarrow> 'r scan \<Rightarrow> int \<times> 'r scan" where
  "passLoop propagate lookAngle s observerGd endT t st =
     (if t < endT
      then passLoop propagate lookAngle s observerGd endT (t + TIME_STEP)
             (passStep propagate lookAngle s observerGd t st)
      else (t, st))"
  by pat_completeness auto
termination
  by (relation "measure (\<lambda>(propagate, lookAngle, s, observerGd, endT, t, st). nat (endT - t))")
     (auto simp: TIME_STEP_def)

declare passLoop.simps [simp del]

text \<open>The block after the loop: a pass still open is closed at the instant the loop
  stopped at.\<close>

definition closeAtHorizon :: "int \<Rightarrow> 'r scan \<Rightarrow> 'r pass list" where
  "closeAtHorizon t st =
     (if inPass st then
        (case currentPass st of
           None \<Rightarrow> passes st
         | Some c \<Rightarrow>
             let c1 = c\<lparr>endTime := Some t, duration := Some (secondsSince c t)\<rparr>
             in if secondsSince c t \<ge> 60 then passes st @ [c1] else passes st)
      else passes st)"

definition calculatePasses ::
  "('r \<Rightarrow> int \<Rightarrow> propagated) \<Rightarrow> ('o \<Rightarrow> vec3 \<Rightarrow> int \<Rightarrow> lookAngles option) \<Rightarrow>
   'r sat \<Rightarrow> 'o \<Rightarrow> int \<Rightarrow> int \<Rightarrow> 'r pass list" where
  "calculatePasses propagate lookAngle s observerGd start windowMs =
     (case passLoop propagate lookAngle s observerGd (start + windowMs) start
             \<lparr>passes = [], inPass = False, currentPass = None\<rparr> of
        (t, st) \<Rightarrow> closeAtHorizon t st)"

subsection \<open>A synthetic orbit for concrete runs\<close>

text \<open>The element set is a pair \<open>(a, w)\<close>: the object stands above the observer from
  the instant \<open>a\<close> for \<open>w\<close> milliseconds and below the horizon otherwise.\<close>

definition windowOrbit :: "int \<times> int \<Rightarrow> int \<Rightarrow> propagated" where
  "windowOrbit sr t =
     PositionEci (Vec3 0 0 (if fst sr \<le> t \<and> t < fst sr + snd sr then 7000 else - 7000))"

definition zenithLook :: "unit \<Rightarrow> vec3 \<Rightarrow> int \<Rightarrow> lookAngles option" where
  "zenithLook observerGd p t =
     Some \<lparr>azimuth = 90, elevation = (if vz p > 0 then 45 else - 45), rangeKm = 1000\<rparr>"

definition windowSat :: "int \<Rightarrow> int \<Rightarrow> (int \<times> int) sat" where
  "windowSat a w = \<lparr>noradId = 25544, altitude = Some 622, satrec = (a, w)\<rparr>"

text \<open>An orbit whose look angles are available at every instant and whose elevation is at
  or above the threshold exactly from \<open>a\<close> for \<open>w\<close> milliseconds.\<close>

definition visibleWindow ::
  "('r \<Rightarrow> int \<Rightarrow> propagated) \<Rightarrow> ('o \<Rightarrow> vec3 \<Rightarrow> int \<Rightarrow> lookAngles option) \<Rightarrow>
   'r sat \<Rightarrow> 'o \<Rightarrow> int \<Rightarrow> int \<Rightarrow> bool" where
  "visibleWindow propagate lookAngle s observerGd a w =
     (\<forall>t. \<exists>p la. propagate (satrec s) t = PositionEci p \<and> lookAngle observerGd p t = Some la
              \<and> (MIN_ELEVATION \<le> elevation la \<longleftrightarrow> a \<le> t \<and> t < a + w))"

text \<open>The first instant of the sampling grid \<open>start, start + TIME_STEP, \<dots>\<close> that is not
  before \<open>a\<close>, for \<open>start \<le> a\<close>; the window \<open>[a, a + w)\<close> is hit when that instant lies in
  it and before the end of the search window.\<close>

definition firstSample :: "int \<Rightarrow> int \<Rightarrow> int" where
  "firstSample start a = start + ((a - start + TIME_STEP - 1) div TIME_STEP) * TIME_STEP"

definition sampleHits :: "int \<Rightarrow> int \<Rightarrow> int \<Rightarrow> int \<Rightarrow> bool" where
  "sampleHits start windowMs a w =
     (firstSample start a < a + w \<and> firstSample start a < start + windowMs)"

subsection \<open>Invariants of the scan\<close>

text \<open>What holds of the pass under construction when the loop is about to look at the
  instant \<open>t\<close>: it has samples, each at or above the threshold and taken from the start
  of the pass on and before \<open>t\<close>; its maximum is the maximum of their elevations, reached at
  an instant from the start on and before \<open>t\<close>.\<close>

definition openOk :: "int \<Rightarrow> 'r pass \<Rightarrow> bool" where
  "openOk t c =
     (points c \<noteq> []
      \<and> (\<forall>q\<in>set (points c). MIN_ELEVATION \<le> elevation q \<and> startTime c \<le> time q \<and> time q < t)
      \<and> maxElevation c = Max (set (map elevation (points c)))
      \<and> startTime c \<le> maxElevationTime c \<and> maxElevationTime c < t)"

text \<open>What holds of a pass that was pushed: it was closed at an instant \<open>e\<close>, which is its
  \<open>endTime\<close>, and its \<open>duration\<close> is the seconds from its start to \<open>e\<close>, at least 60.\<close>

definition closedOk :: "'r pass \<Rightarrow> bool" where
  "closedOk p =
     (case endTime p of
        None \<Rightarrow> False
      | Some e \<Rightarrow> openOk e p \<and> duration p = Some (secondsSince p e) \<and> 60 \<le> secondsSince p e)"

definition scanOk :: "int \<Rightarrow> 'r scan \<Rightarrow> bool" where
  "scanOk t st =
     ((\<forall>p\<in>set (passes st). closedOk p)
      \<and> (inPass st \<longrightarrow> (case currentPass st of None \<Rightarrow> False | Some c \<Rightarrow> openOk t c)))"



text \<open>What the sampling grid gives when the loop is about to look at the instant \<open>t\<close>: an
  open pass began at least one step earlier, with a maximum at or above the threshold.\<close>

definition gridOk :: "int \<Rightarrow> 'r scan \<Rightarrow> bool" where
  "gridOk t st =
     (inPass st \<longrightarrow>
        (case currentPass st of
           None \<Rightarrow> False
         | Some c \<Rightarrow> startTime c + TIME_STEP \<le> t \<and> MIN_ELEVATION \<le> maxElevation c))"

text \<open>Where the scan stands, for an orbit visible exactly during \<open>[a, a + w)\<close>, when it is
  about to look at the instant \<open>t\<close> of the grid: nothing yet while the last sample taken was
  before the window, an open pass while it was inside, and afterwards one pass or none
  according to whether a sample fell inside.\<close>

definition windowPhase :: "int \<Rightarrow> int \<Rightarrow> int \<Rightarrow> int \<Rightarrow> int \<Rightarrow> 'r scan \<Rightarrow> bool" where
  "windowPhase start windowMs a w t st =
     ((\<exists>k::nat. t = start + int k * TIME_STEP)
      \<and> (t = start \<or> t - TIME_STEP < start + windowMs)
      \<and> (t - TIME_STEP < a \<longrightarrow> passes st = [] \<and> \<not> inPass st)
      \<and> (a \<le> t - TIME_STEP \<and> t - TIME_STEP < a + w \<longrightarrow>
            passes st = [] \<and> inPass st
            \<and> (case currentPass st of
                  None \<Rightarrow> False
                | Some c \<Rightarrow> startTime c \<le> t - TIME_STEP \<and> MIN_ELEVATION \<le> maxElevation c))
      \<and> (a + w \<le> t - TIME_STEP \<longrightarrow>
            \<not> inPass st \<and> length (passes st) = (if sampleHits start windowMs a w then 1 else 0)))"

section \<open>Risk bands\<close>

lemma getRiskLevel_cases:
  "getRiskLevel d = ''critical'' \<longleftrightarrow> d < 1"
  "getRiskLevel d = ''high'' \<longleftrightarrow> 1 \<le> d \<and> d < 5"
  "getRiskLevel d = ''moderate'' \<longleftrightarrow> 5 \<le> d \<and> d < 10"
  "getRiskLevel d = ''low'' \<longleftrightarrow> 10 \<le> d \<and> d < 25"
  "getRiskLevel d = ''safe'' \<longleftrightarrow> 25 \<le> d"
  by (auto simp: getRiskLevel_def CRITICAL_def HIGH_def MODERATE_def LOW_def)

text \<open>
  Claim C1. For every distance \<open>d \<ge> 0\<close>, \<open>getRiskLevel\<close> answers critical exactly when
  \<open>d < 1\<close>, high exactly when \<open>1 \<le> d < 5\<close>, moderate exactly when \<open>5 \<le> d < 10\<close>, low
  exactly when \<open>10 \<le> d < 25\<close> and safe exactly when \<open>25 \<le> d\<close>; 0.999 km is critical and
  1.001 km is high. The function reads nothing but its argument.
\<close>

theorem getRiskLevel_bands:
  assumes "0 \<le> d"
  shows "(getRiskLevel d = ''critical'' \<longleftrightarrow> d < 1)
       \<and> (getRiskLevel d = ''high'' \<longleftrightarrow> 1 \<le> d \<and> d < 5)
       \<and> (getRiskLevel d = ''moderate'' \<longleftrightarrow> 5 \<le> d \<and> d < 10)
       \<and> (getRiskLevel d = ''low'' \<longleftrightarrow> 10 \<le> d \<and> d < 25)
       \<and> (getRiskLevel d = ''safe'' \<longleftrightarrow> 25 \<le> d)
       \<and> getRiskLevel 0.999 = ''critical''
       \<and> getRiskLevel 1.001 = ''high''"
  by (simp add: getRiskLevel_cases)

theorem getRiskLevel_bands_witness:
  "(0::real) \<le> 7.5 \<and> getRiskLevel 7.5 = ''moderate'' \<and> getRiskLevel 7.5 \<noteq> ''safe''"
  using getRiskLevel_bands [of "7.5"] by simp

section \<open>Collision probability\<close>

lemma probability_positive: "0 \<le> d \<Longrightarrow> 0 < calculateCollisionProbability d v"
  by (auto simp add: calculateCollisionProbability_def CRITICAL_def HIGH_def MODERATE_def LOW_def
      min_def field_simps)

lemma probability_below_one: "0 \<le> d \<Longrightarrow> calculateCollisionProbability d v < 1"
  by (auto simp add: calculateCollisionProbability_def CRITICAL_def HIGH_def MODERATE_def LOW_def
      min_def field_simps)

lemma probability_antimono:
  "d1 < d2 \<Longrightarrow> sameBand d1 d2 \<Longrightarrow>
   calculateCollisionProbability d2 v \<le> calculateCollisionProbability d1 v"
  unfolding sameBand_def
  by (auto simp add: calculateCollisionProbability_def getRiskLevel_def CRITICAL_def HIGH_def
      MODERATE_def LOW_def min_def split: if_splits)

lemma probability_critical_strict:
  "1 / 50 \<le> d1 \<Longrightarrow> d1 < d2 \<Longrightarrow> d2 < 1 \<Longrightarrow>
   calculateCollisionProbability d2 v < calculateCollisionProbability d1 v"
  by (simp add: calculateCollisionProbability_def CRITICAL_def min_def)

lemma probability_critical_cap: "d \<le> 1 / 50 \<Longrightarrow> calculateCollisionProbability d v = 0.99"
  by (simp add: calculateCollisionProbability_def CRITICAL_def min_def)

text \<open>
  Claim C8. For every distance \<open>d \<ge> 0\<close> the estimate lies strictly between 0 and 1, and
  inside one risk band it never grows with the distance: of two distances of the same band
  the nearer one has the estimate at least as large. Inside the critical band the estimate
  rises as the distance shrinks, strictly down to 0.02 km, where it reaches its largest
  value 0.99, the value at distance 0.
\<close>

theorem calculateCollisionProbability_bounds_monotone:
  assumes "0 \<le> d1"
  shows "0 < calculateCollisionProbability d1 v \<and> calculateCollisionProbability d1 v < 1
       \<and> (d1 < d2 \<and> sameBand d1 d2 \<longrightarrow>
            calculateCollisionProbability d2 v \<le> calculateCollisionProbability d1 v)
       \<and> (1 / 50 \<le> d1 \<and> d1 < d2 \<and> d2 < 1 \<longrightarrow>
            calculateCollisionProbability d2 v < calculateCollisionProbability d1 v)
       \<and> (d1 \<le> 1 / 50 \<longrightarrow> calculateCollisionProbability d1 v = 0.99)"
  using assms probability_positive [of d1 v] probability_below_one [of d1 v]
    probability_antimono [of d1 d2 v] probability_critical_strict [of d1 d2 v]
    probability_critical_cap [of d1 v]
  by blast

theorem calculateCollisionProbability_bounds_monotone_witness:
  "(0::real) \<le> 2 \<and> 2 < (4::real) \<and> sameBand 2 4
   \<and> calculateCollisionProbability 4 10 \<le> calculateCollisionProbability 2 10
   \<and> calculateCollisionProbability 2 10 = 0.34 \<and> calculateCollisionProbability 4 10 = 0.18"
  using calculateCollisionProbability_bounds_monotone [of 2 10 4]
  by (simp add: sameBand_def getRiskLevel_def calculateCollisionProbability_def
      CRITICAL_def HIGH_def MODERATE_def LOW_def)

section \<open>De-duplication of conjunctions\<close>

lemma subseq_distinct: "subseq xs ys \<Longrightarrow> distinct ys \<Longrightarrow> distinct xs"
  by (induction rule: list_emb.induct) (auto dest: list_emb_set)

lemma conjBody_emits:
  "\<exists>ys. subseq ys [idPair sats i j] \<and>
        map pairOf (fst (conjBody P sats t th i j st)) = map pairOf (fst st) @ ys"
proof (cases "fst (conjBody P sats t th i j st) = fst st")
  case True
  then show ?thesis by (intro exI [of _ "[]"]) simp
next
  case False
  then have "map pairOf (fst (conjBody P sats t th i j st)) = map pairOf (fst st) @ [idPair sats i j]"
    by (auto simp: conjBody_def Let_def pairOf_def idPair_def split: if_splits option.splits)
  then show ?thesis by (intro exI [of _ "[idPair sats i j]"]) simp
qed

lemma inner_emits:
  "\<exists>ys. subseq ys (map (idPair sats i) js) \<and>
        map pairOf (fst (fold (conjBody P sats t th i) js st)) = map pairOf (fst st) @ ys"
proof (induction js arbitrary: st)
  case Nil
  show ?case by simp
next
  case (Cons j js)
  let ?st1 = "conjBody P sats t th i j st"
  obtain ys1 where 1: "subseq ys1 [idPair sats i j]"
    and 2: "map pairOf (fst ?st1) = map pairOf (fst st) @ ys1"
    using conjBody_emits [of sats i j P t th st] by (elim exE conjE)
  obtain ys2 where 3: "subseq ys2 (map (idPair sats i) js)"
    and 4: "map pairOf (fst (fold (conjBody P sats t th i) js ?st1)) = map pairOf (fst ?st1) @ ys2"
    using Cons.IH [of ?st1] by (elim exE conjE)
  have "subseq (ys1 @ ys2) ([idPair sats i j] @ map (idPair sats i) js)"
    using 1 3 by (rule list_emb_append_mono)
  then have 5: "subseq (ys1 @ ys2) (map (idPair sats i) (j # js))"
    by (simp only: list.map append.simps)
  have 6: "map pairOf (fst (fold (conjBody P sats t th i) (j # js) st)) = map pairOf (fst st) @ ys1 @ ys2"
    using 2 4 by (simp only: fold_simps append_assoc)
  from 5 6 show ?case by (intro exI [of _ "ys1 @ ys2"] conjI)
qed

lemma outer_emits:
  "\<exists>ys. subseq ys (concat (map (\<lambda>i. map (idPair sats i) [Suc i ..< n]) is)) \<and>
        map pairOf (fst (fold (\<lambda>i. fold (conjBody P sats t th i) [Suc i ..< n]) is st))
          = map pairOf (fst st) @ ys"
proof (induction "is" arbitrary: st)
  case Nil
  show ?case by simp
next
  case (Cons i "is")
  let ?st1 = "fold (conjBody P sats t th i) [Suc i ..< n] st"
  let ?rows = "\<lambda>is. concat (map (\<lambda>i. map (idPair sats i) [Suc i ..< n]) is)"
  obtain ys1 where 1: "subseq ys1 (map (idPair sats i) [Suc i ..< n])"
    and 2: "map pairOf (fst ?st1) = map pairOf (fst st) @ ys1"
    using inner_emits [of sats i "[Suc i ..< n]" P t th st] by (elim exE conjE)
  obtain ys2 where 3: "subseq ys2 (?rows is)"
    and 4: "map pairOf (fst (fold (\<lambda>i. fold (conjBody P sats t th i) [Suc i ..< n]) is ?st1))
       = map pairOf (fst ?st1) @ ys2"
    using Cons.IH [of ?st1] by (elim exE conjE)
  have "subseq (ys1 @ ys2) (map (idPair sats i) [Suc i ..< n] @ ?rows is)"
    using 1 3 by (rule list_emb_append_mono)
  then have 5: "subseq (ys1 @ ys2) (?rows (i # is))"
    by (simp only: list.map concat.simps)
  have 6: "map pairOf (fst (fold (\<lambda>i. fold (conjBody P sats t th i) [Suc i ..< n]) (i # is) st))
       = map pairOf (fst st) @ ys1 @ ys2"
    using 2 4 by (simp only: fold_simps append_assoc)
  from 5 6 show ?case by (intro exI [of _ "ys1 @ ys2"] conjI)
qed

lemma idPair_eq:
  assumes d: "distinct (map noradId sats)" and n: "n \<le> length sats"
    and "i < j" "j < n" "i' < j'" "j' < n" "idPair sats i j = idPair sats i' j'"
  shows "i = i' \<and> j = j'"
proof -
  have inj: "\<And>a b. a < length sats \<Longrightarrow> b < length sats \<Longrightarrow> noradId (sats ! a) = noradId (sats ! b) \<Longrightarrow> a = b"
  proof -
    fix a b assume ab: "a < length sats" "b < length sats" "noradId (sats ! a) = noradId (sats ! b)"
    have "(map noradId sats ! a = map noradId sats ! b) = (a = b)"
      using ab by (intro nth_eq_iff_index_eq [OF d]) simp_all
    with ab show "a = b" by simp
  qed
  from assms(7) have "(noradId (sats ! i) = noradId (sats ! i') \<and> noradId (sats ! j) = noradId (sats ! j'))
     \<or> (noradId (sats ! i) = noradId (sats ! j') \<and> noradId (sats ! j) = noradId (sats ! i'))"
    unfolding idPair_def doubleton_eq_iff by simp
  then show ?thesis
  proof
    assume "noradId (sats ! i) = noradId (sats ! i') \<and> noradId (sats ! j) = noradId (sats ! j')"
    then show ?thesis using inj [of i i'] inj [of j j'] assms by simp
  next
    assume "noradId (sats ! i) = noradId (sats ! j') \<and> noradId (sats ! j) = noradId (sats ! i')"
    then have "i = j'" "j = i'" using inj [of i j'] inj [of j i'] assms by simp_all
    with assms show ?thesis by simp
  qed
qed

lemma idPairs_distinct:
  assumes d: "distinct (map noradId sats)" and n: "n \<le> length sats"
  shows "sorted_wrt (<) is \<Longrightarrow> distinct (concat (map (\<lambda>i. map (idPair sats i) [Suc i ..< n]) is))"
proof (induction "is")
  case Nil
  show ?case by simp
next
  case (Cons i "is")
  have row: "distinct (map (idPair sats i) [Suc i ..< n])"
    unfolding distinct_map
  proof (intro conjI inj_onI)
    fix a b assume "a \<in> set [Suc i ..< n]" "b \<in> set [Suc i ..< n]" "idPair sats i a = idPair sats i b"
    then show "a = b" using idPair_eq [OF d n, of i a i b] by simp
  qed simp
  have disj: "set (map (idPair sats i) [Suc i ..< n]) \<inter>
              set (concat (map (\<lambda>i. map (idPair sats i) [Suc i ..< n]) is)) = {}"
  proof (rule ccontr)
    assume "\<not> ?thesis"
    then obtain p where p: "p \<in> set (map (idPair sats i) [Suc i ..< n])"
      "p \<in> set (concat (map (\<lambda>i. map (idPair sats i) [Suc i ..< n]) is))"
      by blast
    from p(1) obtain j where j: "Suc i \<le> j" "j < n" "p = idPair sats i j" by auto
    from p(2) obtain i' j' where i': "i' \<in> set is" "Suc i' \<le> j'" "j' < n" "p = idPair sats i' j'" by auto
    from j i' have "idPair sats i j = idPair sats i' j'" by simp
    moreover note j(1,2) i'(1,2,3)
    moreover from Cons.prems \<open>i' \<in> set is\<close> have "i < i'" by simp
    ultimately show False using idPair_eq [OF d n, of i j i' j'] by simp
  qed
  from Cons row disj show ?case by simp
qed

lemma conjLoop_distinct:
  assumes "distinct (map noradId sats)"
  shows "distinct (map pairOf (fst (conjLoop P sats t th)))"
proof -
  obtain ys where "subseq ys (concat (map (\<lambda>i. map (idPair sats i) [Suc i ..< length sats]) [0 ..< length sats]))"
    "map pairOf (fst (conjLoop P sats t th)) = ys"
    unfolding conjLoop_def using outer_emits [of sats "length sats" "[0 ..< length sats]" P t th "([], {})"]
    by auto
  moreover have "distinct (concat (map (\<lambda>i. map (idPair sats i) [Suc i ..< length sats]) [0 ..< length sats]))"
    using idPairs_distinct [OF assms order_refl] by simp
  ultimately show ?thesis using subseq_distinct by blast
qed

lemma distinct_map_sort_key: "distinct (map g (sort_key f xs)) = distinct (map g xs)"
proof -
  have "mset (map g (sort_key f xs)) = mset (map g xs)" by simp
  then show ?thesis by (rule mset_eq_imp_distinct_iff)
qed

lemma distinct_map_slice0: "distinct (map g xs) \<Longrightarrow> distinct (map g (slice0 xs m))"
  by (simp add: slice0_def take_map [symmetric])

lemma visitedPairs_distinct:
  "distinct (map noradId sats) \<Longrightarrow> distinct (visitedPairs sats)"
  unfolding visitedPairs_def by (rule idPairs_distinct) simp_all

text \<open>
  Claim C3. When the catalogue numbers of the input records are pairwise distinct, the
  double loop of \<open>findAllConjunctions\<close> visits every unordered pair of numbers at most
  once, and no two conjunctions of the returned list are about the same unordered pair.
\<close>

theorem findAllConjunctions_pairs_distinct:
  assumes "distinct (map noradId satellites)"
  shows "distinct (visitedPairs satellites)
       \<and> distinct (map pairOf (findAllConjunctions propagate satellites t threshold maxResults))"
proof
  show "distinct (visitedPairs satellites)"
    using assms by (rule visitedPairs_distinct)
  show "distinct (map pairOf (findAllConjunctions propagate satellites t threshold maxResults))"
    unfolding findAllConjunctions_def
    by (intro distinct_map_slice0) (simp add: distinct_map_sort_key conjLoop_distinct [OF assms])
qed

theorem findAllConjunctions_pairs_distinct_witness:
  "distinct (map noradId [satA, satB, satDecayed])
   \<and> distinct (map pairOf (findAllConjunctions fixedOrbit [satA, satB, satDecayed] 0 25 50))"
  using findAllConjunctions_pairs_distinct [of "[satA, satB, satDecayed]" fixedOrbit 0 25 50]
  by (simp add: satA_def satB_def satDecayed_def)

section \<open>Concrete distances\<close>

lemma sqrt_625: "sqrt 625 = 25"
  by (rule real_sqrt_unique) simp_all

lemma distance_A_B: "calculateDistance fixedOrbit satA satB t = Some 25"
  by (simp add: calculateDistance_def getPositionAtTime_def fixedOrbit_def satA_def satB_def
      eciToThreeJs_def SCALE_FACTOR_def sqrt_625)

lemma distance_A_decayed: "calculateDistance fixedOrbit satA satDecayed t = None"
  by (simp add: calculateDistance_def getPositionAtTime_def fixedOrbit_def satA_def satDecayed_def)

text \<open>
  Claim C7. With the default options (threshold 25 km) the returned list should hold no
  conjunction of risk level safe. The filter keeps \<open>distance \<le> threshold\<close> while the band
  of low risk is \<open>distance < 25\<close>: two objects exactly 25 km apart are reported, and
  reported as safe. For the two positions of this run the distance is 25 in the double
  arithmetic of the source too: the two x and the two y of the scaled positions are equal,
  and \<open>(-0 - (-25 * 0.001)) / 0.001\<close> rounds to 25.
\<close>

theorem findAllConjunctions_default_reports_safe:
  "map risk (findAllConjunctionsDefault fixedOrbit [satA, satB] 0) = [''safe'']
   \<and> map distance (findAllConjunctionsDefault fixedOrbit [satA, satB] 0) = [25]"
  by (simp add: findAllConjunctionsDefault_def findAllConjunctions_def conjLoop_def conjBody_def
      distance_A_B altitudeOrZero_def slice0_def getRiskLevel_def LOW_def MODERATE_def HIGH_def
      CRITICAL_def Let_def)
     (simp add: satA_def satB_def)

section \<open>Propagation failures in the close-approach scan\<close>

lemma jsNumber_less_simps:
  "(Finite a < Finite b) = (a < b)" "Finite a < Infinity" "\<not> Infinity < d"
  by (cases d; auto simp: less_jsNumber_def)+

lemma getRiskLevelOf_Finite: "getRiskLevelOf (Finite d) = getRiskLevel d"
  by (simp add: getRiskLevelOf_def getRiskLevel_def jsNumber_less_simps)

lemma getRiskLevelOf_Infinity: "getRiskLevelOf Infinity = ''safe''"
  by (simp add: getRiskLevelOf_def jsNumber_less_simps)

lemma calculateDistance_None_iff:
  "calculateDistance P s1 s2 t = None \<longleftrightarrow>
     getPositionAtTime P (satrec s1) t = None \<or> getPositionAtTime P (satrec s2) t = None"
  by (simp add: calculateDistance_def Let_def split: option.splits)

lemma getPositionAtTime_None_iff:
  "getPositionAtTime P sr t = None \<longleftrightarrow> P sr t = PropagateThrows \<or> P sr t = PositionMissing"
  by (simp add: getPositionAtTime_def split: propagated.splits)

text \<open>A sample whose distance is \<open>null\<close> leaves the scan of the pair as if its instant
  were not among the sampled times.\<close>

lemma scanTimes_skip:
  "calculateDistance P tgt c t = None \<Longrightarrow>
   scanTimes P tgt c (ts1 @ t # ts2) m = scanTimes P tgt c (ts1 @ ts2) m"
proof (induction ts1 arbitrary: m)
  case Nil
  then show ?case by (cases m) simp
next
  case (Cons a ts1)
  then show ?case by (cases m) (simp split: option.splits)
qed

lemma scanTimes_all_fail:
  "\<forall>t\<in>set ts. calculateDistance P tgt c t = None \<Longrightarrow> scanTimes P tgt c ts m = m"
proof (induction ts)
  case Nil
  show ?case by simp
next
  case (Cons a ts)
  then show ?case by (cases m) simp
qed

lemma checkCandidates_append:
  "checkCandidates P tgt ts th (xs @ ys) = checkCandidates P tgt ts th xs @ checkCandidates P tgt ts th ys"
  by (induction xs) (simp_all split: prod.splits)

text \<open>Under a finite threshold a candidate whose every sample fails adds nothing: the
  result is that of the same call without it.\<close>

lemma checkCandidates_all_fail_finite:
  "\<forall>t\<in>set ts. calculateDistance P tgt c t = None \<Longrightarrow>
   checkCandidates P tgt ts (Finite th) (c # rest) = checkCandidates P tgt ts (Finite th) rest"
  by (simp add: scanTimes_all_fail)

lemma findCloseApproaches_all_fail_finite:
  assumes "\<forall>t\<in>set (sampleTimes start (start + h * 60 * 60 * 1000)). calculateDistance P tgt c t = None"
  shows "findCloseApproaches P tgt (xs @ c # ys) start h (Finite th) m
       = findCloseApproaches P tgt (xs @ ys) start h (Finite th) m"
proof -
  let ?ts = "sampleTimes start (start + h * 60 * 60 * 1000)"
  have "checkCandidates P tgt ?ts (Finite th) (candidatesOf tgt (xs @ c # ys))
      = checkCandidates P tgt ?ts (Finite th) (candidatesOf tgt (xs @ ys))"
    using checkCandidates_all_fail_finite [OF assms]
    by (simp add: candidatesOf_def checkCandidates_append)
  then show ?thesis by (simp add: findCloseApproaches_def Let_def)
qed

lemma candidatesOf_A_decayed: "candidatesOf satA [satDecayed] = [satDecayed]"
  by (simp add: candidatesOf_def altitudeOrZero_def satA_def satDecayed_def)

lemma scanTimes_A_decayed:
  "scanTimes fixedOrbit satA satDecayed ts (Infinity, None) = (Infinity, None)"
  by (rule scanTimes_all_fail) (simp add: distance_A_decayed)

text \<open>
  Claim C4. In the close-approach scan a propagation failure of either member of a pair
  should only skip the sample, and a pair whose every sample fails should be left out of the
  results without an error. The scan does skip the sample, and under a finite threshold the
  pair is left out. The test after the scan is \<open>minDistance \<le> threshold\<close> alone: when the
  caller passes \<open>threshold: Infinity\<close> to have every candidate reported, the pair whose 13
  samples of one hour all failed still has \<open>minDistance = Infinity\<close>, passes the test and is
  returned with distance \<open>Infinity\<close>, time \<open>null\<close> and risk safe.
\<close>

theorem findCloseApproaches_reports_failed_pair:
  "findCloseApproaches fixedOrbit satA [satDecayed] 0 1 Infinity 10
     = [\<lparr>satellite1 = satA, satellite2 = satDecayed, distance = Infinity, atTime = None,
         risk = ''safe''\<rparr>]
   \<and> findCloseApproaches fixedOrbit satA [satDecayed] 0 1 (Finite 25) 10 = []"
  by (simp add: findCloseApproaches_def Let_def candidatesOf_A_decayed scanTimes_A_decayed
      getRiskLevelOf_Infinity slice0_def)

section \<open>Compass directions\<close>

lemma length_directions: "length directions = 16"
  by (simp add: directions_def)

lemma mathRound_nonneg: "0 \<le> v \<Longrightarrow> 0 \<le> mathRound v"
  by (simp add: mathRound_def)

lemma directionIndex_bounds:
  assumes "0 \<le> az"
  shows "0 \<le> directionIndex az \<and> directionIndex az < 16"
proof -
  have "0 \<le> mathRound (az / 22.5)" using assms by (intro mathRound_nonneg) simp
  then have "jsRemainder (mathRound (az / 22.5)) 16 = mathRound (az / 22.5) mod 16"
    by (cases "mathRound (az / 22.5) = 0") (simp_all add: jsRemainder_def)
  then show ?thesis by (simp add: directionIndex_def)
qed

text \<open>
  Claim C10. For every azimuth in \<open>[0, 360)\<close> the index
  \<open>Math.round(azimuth / 22.5) % 16\<close> lies within the bounds of the array of the sixteen
  directions, and \<open>getCardinalDirection\<close> returns one of them, never \<open>undefined\<close>.
\<close>

theorem getCardinalDirection_in_bounds:
  assumes "0 \<le> az" "az < 360"
  shows "0 \<le> directionIndex az \<and> directionIndex az < int (length directions)
       \<and> (\<exists>d\<in>set directions. getCardinalDirection az = Some d)"
proof -
  have b: "0 \<le> directionIndex az" "directionIndex az < 16"
    using directionIndex_bounds [OF assms(1)] by simp_all
  then have "nat (directionIndex az) < length directions"
    by (simp add: length_directions)
  then have "directions ! nat (directionIndex az) \<in> set directions"
    by (rule nth_mem)
  with b show ?thesis
    by (simp add: getCardinalDirection_def length_directions)
qed

theorem getCardinalDirection_in_bounds_witness:
  "(0::real) \<le> 359.9 \<and> (359.9::real) < 360 \<and> mathRound (359.9 / 22.5) = 16
   \<and> directionIndex 359.9 = 0 \<and> getCardinalDirection 359.9 = Some ''N''"
  using getCardinalDirection_in_bounds [of "359.9"]
  by (simp add: getCardinalDirection_def directionIndex_def mathRound_def jsRemainder_def
      directions_def)

section \<open>The invariant of the pass scan\<close>

lemma openOk_mono: "openOk t c \<Longrightarrow> t \<le> t' \<Longrightarrow> openOk t' c"
  by (fastforce simp: openOk_def)

lemma scanOk_mono: "scanOk t st \<Longrightarrow> t \<le> t' \<Longrightarrow> scanOk t' st"
  by (auto simp: scanOk_def split: option.splits intro: openOk_mono)

lemma openOk_first:
  "MIN_ELEVATION \<le> elevation la \<Longrightarrow>
   openOk (t + TIME_STEP)
     ((newPass s t la)\<lparr>points := [\<lparr>azimuth = azimuth la, elevation = elevation la,
                                    rangeKm = rangeKm la, time = t\<rparr>]\<rparr>)"
  by (simp add: openOk_def newPass_def TIME_STEP_def)

lemma openOk_next:
  assumes "openOk t c" and "MIN_ELEVATION \<le> elevation la"
  shows "openOk (t + TIME_STEP)
     ((if elevation la > maxElevation c
       then c\<lparr>maxElevation := elevation la, maxElevationTime := t, maxAzimuth := azimuth la\<rparr>
       else c)
      \<lparr>points := points (if elevation la > maxElevation c
       then c\<lparr>maxElevation := elevation la, maxElevationTime := t, maxAzimuth := azimuth la\<rparr>
       else c) @ [\<lparr>azimuth = azimuth la, elevation = elevation la,
                                    rangeKm = rangeKm la, time = t\<rparr>]\<rparr>)"
proof -
  let ?S = "elevation ` set (points c)"
  have fin: "finite ?S" "?S \<noteq> {}" using assms(1) by (simp_all add: openOk_def)
  have mx: "maxElevation c = Max ?S" using assms(1) by (simp add: openOk_def)
  have "Max (insert (elevation la) ?S) = max (elevation la) (Max ?S)"
    using fin by (rule Max_insert)
  then have newmax: "Max (insert (elevation la) ?S)
      = (if elevation la > maxElevation c then elevation la else maxElevation c)"
    unfolding mx by (simp add: max_def)
  have st: "startTime c \<le> t"
    using assms(1) by (simp add: openOk_def)
  have old: "points c \<noteq> []"
    "\<forall>q\<in>set (points c). MIN_ELEVATION \<le> elevation q \<and> startTime c \<le> time q \<and> time q < t"
    "startTime c \<le> maxElevationTime c" "maxElevationTime c < t"
    using assms(1) by (simp_all add: openOk_def)
  show ?thesis
  proof (cases "elevation la > maxElevation c")
    case True
    with assms(2) newmax st old show ?thesis
      by (simp add: openOk_def TIME_STEP_def) fastforce
  next
    case False
    with assms(2) newmax st old show ?thesis
      by (simp add: openOk_def TIME_STEP_def) fastforce
  qed
qed

lemma onLook_scanOk:
  assumes "scanOk t st"
  shows "scanOk (t + TIME_STEP) (onLook s t la st)"
proof (cases "MIN_ELEVATION \<le> elevation la")
  case above: True
  show ?thesis
  proof (cases "inPass st")
    case False
    with above assms openOk_first [OF above, of t s] show ?thesis
      by (simp add: onLook_def scanOk_def newPass_def Let_def)
  next
    case True
    with assms obtain c where c: "currentPass st = Some c" "openOk t c"
      by (auto simp: scanOk_def split: option.splits)
    from True above assms c openOk_next [OF c(2) above] show ?thesis
      by (simp add: onLook_def scanOk_def Let_def)
  qed
next
  case below: False
  show ?thesis
  proof (cases "inPass st")
    case False
    with below assms show ?thesis
      by (simp add: onLook_def scanOk_mono TIME_STEP_def)
  next
    case True
    with assms obtain c where c: "currentPass st = Some c" "openOk t c"
      by (auto simp: scanOk_def split: option.splits)
    have "closedOk (c\<lparr>endTime := Some t, endAzimuth := Some (azimuth la),
                        endDirection := getCardinalDirection (azimuth la),
                        duration := Some (secondsSince c t)\<rparr>)"
      if "60 \<le> secondsSince c t"
      using that c(2) by (simp add: closedOk_def openOk_def secondsSince_def)
    with True below assms c show ?thesis
      by (simp add: onLook_def scanOk_def Let_def)
  qed
qed

lemma passStep_scanOk:
  "scanOk t st \<Longrightarrow> scanOk (t + TIME_STEP) (passStep P L s obs t st)"
proof -
  assume ok: "scanOk t st"
  then have "scanOk (t + TIME_STEP) st"
    by (rule scanOk_mono) (simp add: TIME_STEP_def)
  with onLook_scanOk [OF ok] show ?thesis
    by (simp add: passStep_def split: propagated.splits option.splits)
qed

lemma passLoop_scanOk:
  "scanOk t st \<Longrightarrow> passLoop P L s obs endT t st = (t', st') \<Longrightarrow> scanOk t' st'"
proof (induction P L s obs endT t st rule: passLoop.induct)
  case (1 P L s obs endT t st)
  show ?case
  proof (cases "t < endT")
    case True
    with "1.prems" have "passLoop P L s obs endT (t + TIME_STEP) (passStep P L s obs t st) = (t', st')"
      by (simp add: passLoop.simps [of P L s obs endT t st])
    with "1.IH" [OF True passStep_scanOk [OF "1.prems"(1)]] show ?thesis .
  next
    case False
    with "1.prems" show ?thesis
      by (simp add: passLoop.simps [of P L s obs endT t st])
  qed
qed

lemma closeAtHorizon_closedOk:
  assumes "scanOk t st" and "p \<in> set (closeAtHorizon t st)"
  shows "closedOk p"
proof (cases "inPass st")
  case False
  with assms show ?thesis by (simp add: closeAtHorizon_def scanOk_def)
next
  case True
  with assms obtain c where c: "currentPass st = Some c" "openOk t c"
    by (auto simp: scanOk_def split: option.splits)
  have "closedOk (c\<lparr>endTime := Some t, duration := Some (secondsSince c t)\<rparr>)"
    if "60 \<le> secondsSince c t"
    using that c(2) by (simp add: closedOk_def openOk_def secondsSince_def)
  with True assms c show ?thesis
    by (auto simp: closeAtHorizon_def scanOk_def Let_def split: if_splits)
qed

lemma calculatePasses_closedOk:
  assumes "p \<in> set (calculatePasses P L s obs start windowMs)"
  shows "closedOk p"
proof -
  obtain t st where run: "passLoop P L s obs (start + windowMs) start
       \<lparr>passes = [], inPass = False, currentPass = None\<rparr> = (t, st)"
    by (cases "passLoop P L s obs (start + windowMs) start
       \<lparr>passes = [], inPass = False, currentPass = None\<rparr>")
  have "scanOk start \<lparr>passes = [], inPass = False, currentPass = None\<rparr>"
    by (simp add: scanOk_def)
  then have "scanOk t st" using run by (rule passLoop_scanOk)
  moreover from assms run have "p \<in> set (closeAtHorizon t st)"
    by (simp add: calculatePasses_def)
  ultimately show ?thesis by (rule closeAtHorizon_closedOk)
qed

subsection \<open>The instant of the maximum\<close>









section \<open>Concrete scans\<close>

lemmas run_defs = calculatePasses_def passLoop.simps TIME_STEP_def passStep_def windowOrbit_def
  zenithLook_def windowSat_def onLook_def MIN_ELEVATION_def newPass_def secondsSince_def
  closeAtHorizon_def Let_def getCardinalDirection_def directionIndex_def mathRound_def
  jsRemainder_def directions_def

text \<open>Two minutes above the threshold, closed by the sample of the third minute.\<close>

lemma run_two_minutes:
  "calculatePasses windowOrbit zenithLook (windowSat 0 120000) () 0 300000 =
    [\<lparr>satellite = \<lparr>noradId = 25544, altitude = Some 622, satrec = (0, 120000)\<rparr>,
      startTime = 0, startAzimuth = 90, startDirection = Some ''E'',
      maxElevation = 45, maxElevationTime = 0, maxAzimuth = 90,
      points = [\<lparr>azimuth = 90, elevation = 45, rangeKm = 1000, time = 0\<rparr>,
                \<lparr>azimuth = 90, elevation = 45, rangeKm = 1000, time = 60000\<rparr>],
      endTime = Some 120000, endAzimuth = Some 90, endDirection = Some ''E'',
      duration = Some 120\<rparr>]"
  by (simp add: run_defs)

text \<open>Ten minutes above the threshold, searched for two minutes only.\<close>

lemma run_cut_by_horizon:
  "calculatePasses windowOrbit zenithLook (windowSat 0 600000) () 0 120000 =
    [\<lparr>satellite = \<lparr>noradId = 25544, altitude = Some 622, satrec = (0, 600000)\<rparr>,
      startTime = 0, startAzimuth = 90, startDirection = Some ''E'',
      maxElevation = 45, maxElevationTime = 0, maxAzimuth = 90,
      points = [\<lparr>azimuth = 90, elevation = 45, rangeKm = 1000, time = 0\<rparr>,
                \<lparr>azimuth = 90, elevation = 45, rangeKm = 1000, time = 60000\<rparr>],
      endTime = Some 120000, endAzimuth = None, endDirection = None,
      duration = Some 120\<rparr>]"
  by (simp add: run_defs)

text \<open>Thirty seconds above the threshold, from the very instant of the first sample.\<close>

lemma run_thirty_seconds:
  "calculatePasses windowOrbit zenithLook (windowSat 0 30000) () 0 300000 =
    [\<lparr>satellite = \<lparr>noradId = 25544, altitude = Some 622, satrec = (0, 30000)\<rparr>,
      startTime = 0, startAzimuth = 90, startDirection = Some ''E'',
      maxElevation = 45, maxElevationTime = 0, maxAzimuth = 90,
      points = [\<lparr>azimuth = 90, elevation = 45, rangeKm = 1000, time = 0\<rparr>],
      endTime = Some 60000, endAzimuth = Some 90, endDirection = Some ''E'',
      duration = Some 60\<rparr>]"
  by (simp add: run_defs)

text \<open>Thirty seconds above the threshold in the middle of the search, from the instant of
  the third sample.\<close>

lemma run_thirty_seconds_mid:
  "calculatePasses windowOrbit zenithLook (windowSat 120000 30000) () 0 300000 =
    [\<lparr>satellite = \<lparr>noradId = 25544, altitude = Some 622, satrec = (120000, 30000)\<rparr>,
      startTime = 120000, startAzimuth = 90, startDirection = Some ''E'',
      maxElevation = 45, maxElevationTime = 120000, maxAzimuth = 90,
      points = [\<lparr>azimuth = 90, elevation = 45, rangeKm = 1000, time = 120000\<rparr>],
      endTime = Some 180000, endAzimuth = Some 90, endDirection = Some ''E'',
      duration = Some 60\<rparr>]"
  by (simp add: run_defs)

section \<open>Samples of a pass\<close>

text \<open>
  Claim C2. Every pass returned by \<open>calculatePasses\<close> has samples; each stored sample has
  an elevation of at least \<open>MIN_ELEVATION\<close> (10 degrees); \<open>maxElevation\<close> is the maximum of
  the elevations of the stored samples; and each stored sample's time lies between
  \<open>startTime\<close> and \<open>endTime\<close>, which is set.
\<close>

theorem calculatePasses_samples_invariant:
  "\<forall>p\<in>set (calculatePasses P L s obs start windowMs).
      points p \<noteq> []
    \<and> (\<forall>q\<in>set (points p). MIN_ELEVATION \<le> elevation q)
    \<and> maxElevation p = Max (set (map elevation (points p)))
    \<and> (\<exists>e. endTime p = Some e \<and> (\<forall>q\<in>set (points p). startTime p \<le> time q \<and> time q \<le> e))"
proof
  fix p assume "p \<in> set (calculatePasses P L s obs start windowMs)"
  then have "closedOk p" by (rule calculatePasses_closedOk)
  then show "points p \<noteq> []
    \<and> (\<forall>q\<in>set (points p). MIN_ELEVATION \<le> elevation q)
    \<and> maxElevation p = Max (set (map elevation (points p)))
    \<and> (\<exists>e. endTime p = Some e \<and> (\<forall>q\<in>set (points p). startTime p \<le> time q \<and> time q \<le> e))"
    by (cases "endTime p") (auto simp: closedOk_def openOk_def)
qed

theorem calculatePasses_samples_invariant_witness:
  "length (calculatePasses windowOrbit zenithLook (windowSat 0 120000) () 0 300000) = 1
   \<and> map (map elevation) (map points
         (calculatePasses windowOrbit zenithLook (windowSat 0 120000) () 0 300000)) = [[45, 45]]
   \<and> map (map time) (map points
         (calculatePasses windowOrbit zenithLook (windowSat 0 120000) () 0 300000)) = [[0, 60000]]
   \<and> map maxElevation
         (calculatePasses windowOrbit zenithLook (windowSat 0 120000) () 0 300000) = [45]
   \<and> map startTime
         (calculatePasses windowOrbit zenithLook (windowSat 0 120000) () 0 300000) = [0]
   \<and> map endTime
         (calculatePasses windowOrbit zenithLook (windowSat 0 120000) () 0 300000) = [Some 120000]"
  using calculatePasses_samples_invariant
    [of windowOrbit zenithLook "windowSat 0 120000" "()" 0 300000]
  by (simp add: run_two_minutes)

section \<open>Order of the three instants of a pass\<close>




section \<open>A pass cut by the end of the search window\<close>

text \<open>
  Claim C9. Every returned pass, also one closed because the search window ended, should
  carry numbers in \<open>startAzimuth\<close>, \<open>endAzimuth\<close>, \<open>maxAzimuth\<close> and \<open>maxElevation\<close>, the
  same end-of-pass fields as a pass closed by a sample below the threshold. The block after
  the loop writes \<open>endTime\<close> and \<open>duration\<close> only: the pass cut by the horizon is returned
  with \<open>endAzimuth\<close> and \<open>endDirection\<close> undefined, where the pass closed inside the loop
  has both.
\<close>

theorem calculatePasses_horizon_pass_lacks_endAzimuth:
  "map endAzimuth (calculatePasses windowOrbit zenithLook (windowSat 0 600000) () 0 120000) = [None]
   \<and> map endDirection (calculatePasses windowOrbit zenithLook (windowSat 0 600000) () 0 120000) = [None]
   \<and> map endTime (calculatePasses windowOrbit zenithLook (windowSat 0 600000) () 0 120000) = [Some 120000]
   \<and> map duration (calculatePasses windowOrbit zenithLook (windowSat 0 600000) () 0 120000) = [Some 120]
   \<and> map endAzimuth (calculatePasses windowOrbit zenithLook (windowSat 0 120000) () 0 300000) = [Some 90]
   \<and> map endDirection (calculatePasses windowOrbit zenithLook (windowSat 0 120000) () 0 300000) = [Some ''E'']"
  by (simp add: run_cut_by_horizon run_two_minutes)

section \<open>The duration filter\<close>

subsection \<open>The sampling grid\<close>

lemma TIME_STEP_val: "TIME_STEP = 60000"
  by (simp add: TIME_STEP_def)

lemma firstSample_bounds:
  "a \<le> firstSample start a \<and> firstSample start a < a + TIME_STEP"
proof -
  let ?d = "a - start + 60000 - 1"
  have "?d div 60000 * 60000 + ?d mod 60000 = ?d" by (rule div_mult_mod_eq)
  moreover have "0 \<le> ?d mod 60000" "?d mod 60000 < 60000" by simp_all
  ultimately show ?thesis
    unfolding firstSample_def TIME_STEP_val by linarith
qed

lemma firstSample_grid:
  assumes "start \<le> a"
  shows "\<exists>k::nat. firstSample start a = start + int k * TIME_STEP"
proof -
  have "0 \<le> (a - start + TIME_STEP - 1) div TIME_STEP"
    using assms by (simp add: TIME_STEP_def pos_imp_zdiv_nonneg_iff)
  then have "firstSample start a = start + int (nat ((a - start + TIME_STEP - 1) div TIME_STEP)) * TIME_STEP"
    by (simp add: firstSample_def)
  then show ?thesis ..
qed

lemma firstSample_least:
  assumes "start \<le> a" and "a \<le> start + int k * TIME_STEP"
  shows "firstSample start a \<le> start + int k * TIME_STEP"
proof -
  obtain j :: nat where j: "firstSample start a = start + int j * TIME_STEP"
    using firstSample_grid [OF assms(1)] ..
  have "firstSample start a < a + TIME_STEP" using firstSample_bounds by simp
  with j assms(2) have "int j * 60000 < (int k + 1) * 60000"
    by (simp add: TIME_STEP_def algebra_simps)
  then have "int j < int k + 1" by simp
  then have "int j * 60000 \<le> int k * 60000" by simp
  with j show ?thesis by (simp add: TIME_STEP_def)
qed

lemma firstSample_after:
  assumes "start \<le> a" and "t = start + int k * TIME_STEP" and "t - TIME_STEP < a"
  shows "t \<le> firstSample start a"
proof -
  obtain j :: nat where j: "firstSample start a = start + int j * TIME_STEP"
    using firstSample_grid [OF assms(1)] ..
  have "a \<le> firstSample start a" using firstSample_bounds by simp
  with j assms(2,3) have "(int k - 1) * 60000 < int j * 60000"
    by (simp add: TIME_STEP_def algebra_simps)
  then have "int k - 1 < int j" by simp
  then have "int k * 60000 \<le> int j * 60000" by simp
  with j assms(2) show ?thesis by (simp add: TIME_STEP_def)
qed

subsection \<open>One visibility window\<close>

lemma onLook_idle:
  "\<not> MIN_ELEVATION \<le> elevation la \<Longrightarrow> \<not> inPass st \<Longrightarrow> onLook s t la st = st"
  by (simp add: onLook_def)

lemma onLook_open:
  assumes "MIN_ELEVATION \<le> elevation la" and "\<not> inPass st"
  shows "passes (onLook s t la st) = passes st \<and> inPass (onLook s t la st)
       \<and> (\<exists>c. currentPass (onLook s t la st) = Some c \<and> startTime c = t
                \<and> MIN_ELEVATION \<le> maxElevation c)"
  using assms by (simp add: onLook_def newPass_def Let_def)

lemma onLook_extend:
  assumes "MIN_ELEVATION \<le> elevation la" and "inPass st" and "currentPass st = Some c"
    and "MIN_ELEVATION \<le> maxElevation c"
  shows "passes (onLook s t la st) = passes st \<and> inPass (onLook s t la st)
       \<and> (\<exists>c'. currentPass (onLook s t la st) = Some c' \<and> startTime c' = startTime c
                \<and> MIN_ELEVATION \<le> maxElevation c')"
  using assms by (simp add: onLook_def Let_def)

lemma onLook_close:
  assumes "\<not> MIN_ELEVATION \<le> elevation la" and "inPass st" and "currentPass st = Some c"
    and "MIN_ELEVATION \<le> maxElevation c" and "60 \<le> secondsSince c t"
  shows "\<not> inPass (onLook s t la st) \<and> length (passes (onLook s t la st)) = Suc (length (passes st))"
  using assms by (simp add: onLook_def Let_def)

lemma secondsSince_step:
  "startTime c \<le> t - TIME_STEP \<Longrightarrow> 60 \<le> secondsSince c t"
  by (simp add: secondsSince_def TIME_STEP_def)

lemma sampleHits_inside:
  assumes "start \<le> a" and "t = start + int k * TIME_STEP"
    and "a \<le> t - TIME_STEP" and "t - TIME_STEP < a + w" and "t - TIME_STEP < start + windowMs"
  shows "sampleHits start windowMs a w"
proof -
  from assms(1,2,3) have "0 < k" by (cases k) (simp_all add: TIME_STEP_def)
  then obtain k' where k': "k = Suc k'" by (cases k) simp_all
  with assms(2) have g: "t - TIME_STEP = start + int k' * TIME_STEP"
    by (simp add: algebra_simps)
  have "firstSample start a \<le> t - TIME_STEP"
    unfolding g using assms(1) assms(3) [unfolded g] by (rule firstSample_least)
  with assms(4,5) show ?thesis by (simp add: sampleHits_def)
qed

lemma sampleHits_missed:
  assumes "start \<le> a" and "t = start + int k * TIME_STEP"
    and "t - TIME_STEP < a" and "a + w \<le> t \<or> start + windowMs \<le> t"
  shows "\<not> sampleHits start windowMs a w"
  using firstSample_after [OF assms(1,2,3)] assms(4) by (auto simp: sampleHits_def)

lemma windowPhase_step:
  assumes vis: "visibleWindow P L s obs a w" and sa: "start \<le> a"
    and inv: "windowPhase start windowMs a w t st" and run: "t < start + windowMs"
  shows "windowPhase start windowMs a w (t + TIME_STEP) (passStep P L s obs t st)"
proof -
  obtain p la where la: "P (satrec s) t = PositionEci p" "L obs p t = Some la"
    "MIN_ELEVATION \<le> elevation la \<longleftrightarrow> a \<le> t \<and> t < a + w"
    using vis unfolding visibleWindow_def by blast
  have step: "passStep P L s obs t st = onLook s t la st"
    by (simp add: passStep_def la)
  obtain k :: nat where k: "t = start + int k * TIME_STEP"
    using inv unfolding windowPhase_def by blast
  have grid: "\<exists>j::nat. t + TIME_STEP = start + int j * TIME_STEP"
    using k by (intro exI [of _ "Suc k"]) (simp add: algebra_simps)
  have p1: "t - TIME_STEP < a \<Longrightarrow> passes st = [] \<and> \<not> inPass st"
    and p2: "a \<le> t - TIME_STEP \<Longrightarrow> t - TIME_STEP < a + w \<Longrightarrow>
           passes st = [] \<and> inPass st \<and> (\<exists>c. currentPass st = Some c \<and> startTime c \<le> t - TIME_STEP
              \<and> MIN_ELEVATION \<le> maxElevation c)"
    and p3: "a + w \<le> t - TIME_STEP \<Longrightarrow>
           \<not> inPass st \<and> length (passes st) = (if sampleHits start windowMs a w then 1 else 0)"
    and pb: "t = start \<or> t - TIME_STEP < start + windowMs"
    using inv unfolding windowPhase_def by (auto split: option.splits)
  have pos: "0 < TIME_STEP" by (simp add: TIME_STEP_def)
  consider (before) "t < a" | (inside) "a \<le> t" "t < a + w" | (after) "a \<le> t" "a + w \<le> t"
    by linarith
  then have "(t < a \<longrightarrow> passes (onLook s t la st) = [] \<and> \<not> inPass (onLook s t la st))
      \<and> (a \<le> t \<and> t < a + w \<longrightarrow>
            passes (onLook s t la st) = [] \<and> inPass (onLook s t la st)
            \<and> (\<exists>c. currentPass (onLook s t la st) = Some c \<and> startTime c \<le> t
                   \<and> MIN_ELEVATION \<le> maxElevation c))
      \<and> (a + w \<le> t \<longrightarrow>
            \<not> inPass (onLook s t la st)
            \<and> length (passes (onLook s t la st)) = (if sampleHits start windowMs a w then 1 else 0))"
  proof cases
    case before
    then have "t - TIME_STEP < a" using pos by linarith
    then have "passes st = []" "\<not> inPass st" using p1 by simp_all
    moreover from before la(3) have below: "\<not> MIN_ELEVATION \<le> elevation la" by simp
    ultimately have "onLook s t la st = st" by (simp add: onLook_idle)
    with \<open>passes st = []\<close> \<open>\<not> inPass st\<close> before show ?thesis
    proof (cases "a + w \<le> t")
      case True
      have "\<not> sampleHits start windowMs a w"
        using sa k \<open>t - TIME_STEP < a\<close> True by (intro sampleHits_missed [of start a t k w]) simp_all
      with \<open>onLook s t la st = st\<close> \<open>passes st = []\<close> \<open>\<not> inPass st\<close> before show ?thesis by simp
    next
      case False
      with \<open>onLook s t la st = st\<close> \<open>passes st = []\<close> \<open>\<not> inPass st\<close> before show ?thesis by simp
    qed
  next
    case inside
    with la(3) have above: "MIN_ELEVATION \<le> elevation la" by simp
    show ?thesis
    proof (cases "t - TIME_STEP < a")
      case True
      then have "passes st = []" "\<not> inPass st" using p1 by simp_all
      with onLook_open [OF above, of st s t] inside show ?thesis by auto
    next
      case False
      then have "a \<le> t - TIME_STEP" "t - TIME_STEP < a + w" using inside pos by linarith+
      from p2 [OF this] obtain c where c: "passes st = []" "inPass st" "currentPass st = Some c"
        "startTime c \<le> t - TIME_STEP" "MIN_ELEVATION \<le> maxElevation c" by blast
      from onLook_extend [OF above c(2,3,5), of s t] c(1,4) inside pos show ?thesis by auto
    qed
  next
    case after
    with la(3) have below: "\<not> MIN_ELEVATION \<le> elevation la" by simp
    consider (c1) "t - TIME_STEP < a" | (c2) "a \<le> t - TIME_STEP" "t - TIME_STEP < a + w"
      | (c3) "a + w \<le> t - TIME_STEP" "a \<le> t - TIME_STEP"
      by linarith
    then show ?thesis
    proof cases
      case c1
      then have st: "passes st = []" "\<not> inPass st" using p1 by simp_all
      then have same: "onLook s t la st = st" using below by (simp add: onLook_idle)
      have "\<not> sampleHits start windowMs a w"
        using sa k c1 after by (intro sampleHits_missed [of start a t k w]) simp_all
      with same st after show ?thesis by simp
    next
      case c2
      from p2 [OF this] obtain c where c: "passes st = []" "inPass st" "currentPass st = Some c"
        "startTime c \<le> t - TIME_STEP" "MIN_ELEVATION \<le> maxElevation c" by blast
      have "t \<noteq> start" using c2 sa pos by linarith
      with pb have "t - TIME_STEP < start + windowMs" by simp
      then have hit: "sampleHits start windowMs a w"
        using sa k c2 by (intro sampleHits_inside [of start a t k w]) simp_all
      from onLook_close [OF below c(2,3,5) secondsSince_step [OF c(4)], of s] c(1) hit after
      show ?thesis by simp
    next
      case c3
      from p3 [OF c3(1)] have st: "\<not> inPass st"
        "length (passes st) = (if sampleHits start windowMs a w then 1 else 0)" by simp_all
      then have "onLook s t la st = st" using below by (simp add: onLook_idle)
      with st after show ?thesis by simp
    qed
  qed
  with grid run step show ?thesis
    unfolding windowPhase_def by (auto split: option.splits)
qed

lemma windowPhase_loop:
  "visibleWindow P L s obs a w \<Longrightarrow> start \<le> a \<Longrightarrow> endT = start + windowMs \<Longrightarrow>
   windowPhase start windowMs a w t st \<Longrightarrow>
   passLoop P L s obs endT t st = (t', st') \<Longrightarrow>
   windowPhase start windowMs a w t' st' \<and> start + windowMs \<le> t'"
proof (induction P L s obs endT t st rule: passLoop.induct)
  case (1 P L s obs endT t st)
  show ?case
  proof (cases "t < endT")
    case True
    with "1.prems"(5) have "passLoop P L s obs endT (t + TIME_STEP) (passStep P L s obs t st) = (t', st')"
      by (simp add: passLoop.simps [of P L s obs endT t st])
    moreover have "windowPhase start windowMs a w (t + TIME_STEP) (passStep P L s obs t st)"
      using "1.prems"(1,2,4) True [unfolded "1.prems"(3)] by (rule windowPhase_step)
    ultimately show ?thesis using "1.IH" [OF True "1.prems"(1,2,3)] by blast
  next
    case False
    with "1.prems"(5) have "t' = t" "st' = st"
      by (simp_all add: passLoop.simps [of P L s obs endT t st])
    with False "1.prems"(3,4) show ?thesis by simp
  qed
qed

lemma closeAtHorizon_window:
  assumes sa: "start \<le> a" and inv: "windowPhase start windowMs a w t st"
    and fin: "start + windowMs \<le> t"
  shows "length (closeAtHorizon t st) = (if sampleHits start windowMs a w then 1 else 0)"
proof -
  obtain k :: nat where k: "t = start + int k * TIME_STEP"
    using inv unfolding windowPhase_def by blast
  have p1: "t - TIME_STEP < a \<Longrightarrow> passes st = [] \<and> \<not> inPass st"
    and p2: "a \<le> t - TIME_STEP \<Longrightarrow> t - TIME_STEP < a + w \<Longrightarrow>
           passes st = [] \<and> inPass st \<and> (\<exists>c. currentPass st = Some c \<and> startTime c \<le> t - TIME_STEP
              \<and> MIN_ELEVATION \<le> maxElevation c)"
    and p3: "a + w \<le> t - TIME_STEP \<Longrightarrow>
           \<not> inPass st \<and> length (passes st) = (if sampleHits start windowMs a w then 1 else 0)"
    and pb: "t = start \<or> t - TIME_STEP < start + windowMs"
    using inv unfolding windowPhase_def by (auto split: option.splits)
  have pos: "0 < TIME_STEP" by (simp add: TIME_STEP_def)
  consider (c1) "t - TIME_STEP < a" | (c2) "a \<le> t - TIME_STEP" "t - TIME_STEP < a + w"
    | (c3) "a + w \<le> t - TIME_STEP" "a \<le> t - TIME_STEP"
    by linarith
  then show ?thesis
  proof cases
    case c1
    then have st: "passes st = []" "\<not> inPass st" using p1 by simp_all
    have "\<not> sampleHits start windowMs a w"
      using sa k c1 fin by (intro sampleHits_missed [of start a t k w]) simp_all
    with st show ?thesis by (simp add: closeAtHorizon_def)
  next
    case c2
    from p2 [OF this] obtain c where c: "passes st = []" "inPass st" "currentPass st = Some c"
      "startTime c \<le> t - TIME_STEP" "MIN_ELEVATION \<le> maxElevation c" by blast
    have "t \<noteq> start" using c2 sa pos by linarith
    with pb have "t - TIME_STEP < start + windowMs" by simp
    then have hit: "sampleHits start windowMs a w"
      using sa k c2 by (intro sampleHits_inside [of start a t k w]) simp_all
    with c secondsSince_step [OF c(4)] show ?thesis
      by (simp add: closeAtHorizon_def Let_def)
  next
    case c3
    from p3 [OF c3(1)] show ?thesis by (simp add: closeAtHorizon_def)
  qed
qed

lemma calculatePasses_window_count:
  assumes vis: "visibleWindow P L s obs a w" and sa: "start \<le> a"
  shows "length (calculatePasses P L s obs start windowMs)
           = (if sampleHits start windowMs a w then 1 else 0)"
proof -
  let ?init = "\<lparr>passes = [], inPass = False, currentPass = None\<rparr> :: 'a scan"
  obtain t st where run: "passLoop P L s obs (start + windowMs) start ?init = (t, st)"
    by (cases "passLoop P L s obs (start + windowMs) start ?init")
  have "windowPhase start windowMs a w start ?init"
    unfolding windowPhase_def using sa firstSample_bounds [of a start]
    by (auto simp: TIME_STEP_def sampleHits_def intro: exI [of _ "0::nat"])
  from windowPhase_loop [OF vis sa refl this run]
  have "windowPhase start windowMs a w t st" "start + windowMs \<le> t" by simp_all
  with sa have "length (closeAtHorizon t st) = (if sampleHits start windowMs a w then 1 else 0)"
    by (rule closeAtHorizon_window)
  with run show ?thesis by (simp add: calculatePasses_def)
qed

lemma sampleHits_long_window:
  assumes "start \<le> a" and "TIME_STEP \<le> w" and "a + w \<le> start + windowMs"
  shows "sampleHits start windowMs a w"
  using firstSample_bounds [of a start] assms by (simp add: sampleHits_def)

lemma visibleWindow_windowSat:
  "visibleWindow windowOrbit zenithLook (windowSat a w) () a w"
  by (simp add: visibleWindow_def windowOrbit_def zenithLook_def windowSat_def MIN_ELEVATION_def)

lemma calculatePasses_duration:
  assumes "p \<in> set (calculatePasses P L s obs start windowMs)"
  shows "\<exists>e. endTime p = Some e \<and> duration p = Some (real_of_int (e - startTime p) / 1000)
            \<and> 60 \<le> real_of_int (e - startTime p) / 1000"
  using calculatePasses_closedOk [OF assms]
  by (cases "endTime p") (simp_all add: closedOk_def secondsSince_def)

subsection \<open>What the two duration tests can see\<close>

text \<open>The lemmas below are the invariant argument that in every state a run reaches both
  tests on the duration succeed: the invariant holds at the start, every iteration keeps
  it, and under it a pass that is being closed, by a sample below the threshold or by the
  end of the search, is pushed.\<close>

lemma gridOk_init: "gridOk start \<lparr>passes = [], inPass = False, currentPass = None\<rparr>"
  by (simp add: gridOk_def)

lemma onLook_gridOk: "gridOk t st \<Longrightarrow> gridOk (t + TIME_STEP) (onLook s t la st)"
  by (auto simp: gridOk_def onLook_def newPass_def Let_def TIME_STEP_def split: option.splits)

lemma passStep_gridOk: "gridOk t st \<Longrightarrow> gridOk (t + TIME_STEP) (passStep P L s obs t st)"
proof -
  assume g: "gridOk t st"
  then have "gridOk (t + TIME_STEP) st"
    by (auto simp: gridOk_def TIME_STEP_def split: option.splits)
  with onLook_gridOk [OF g] show ?thesis
    by (simp add: passStep_def split: propagated.splits option.splits)
qed

lemma duration_tests_pass:
  assumes "gridOk t st" and "inPass st" and "currentPass st = Some c"
  shows "60 \<le> secondsSince c t \<and> MIN_ELEVATION \<le> maxElevation c"
  using assms by (simp add: gridOk_def secondsSince_def TIME_STEP_def)

lemma close_always_pushes:
  assumes "gridOk t st" and "inPass st"
  shows "elevation la < MIN_ELEVATION \<Longrightarrow>
           length (passes (onLook s t la st)) = Suc (length (passes st))"
    and "length (closeAtHorizon t st) = Suc (length (passes st))"
  using assms
  by (auto simp: gridOk_def onLook_def closeAtHorizon_def secondsSince_def TIME_STEP_def Let_def
      split: option.splits)

text \<open>
  Claim C5. A completed pass is to be accepted only when it lasts at least 60 seconds, so
  that an orbit above the threshold for 30 seconds gives no pass. The duration the code
  tests is the time between two instants of the sampling grid, which are 60 seconds apart:
  it is never below 60, and both tests written under the comment on meaningful duration
  discard nothing. The orbit of this run is above the threshold exactly during the 30
  seconds from the third sample on; the sample of the next minute closes the pass, which is
  returned with a duration of 60 seconds.
\<close>

theorem calculatePasses_returns_thirty_second_window:
  "visibleWindow windowOrbit zenithLook (windowSat 120000 30000) () 120000 30000
   \<and> map (map time) (map points
         (calculatePasses windowOrbit zenithLook (windowSat 120000 30000) () 0 300000)) = [[120000]]
   \<and> map startTime
         (calculatePasses windowOrbit zenithLook (windowSat 120000 30000) () 0 300000) = [120000]
   \<and> map endTime
         (calculatePasses windowOrbit zenithLook (windowSat 120000 30000) () 0 300000) = [Some 180000]
   \<and> map duration
         (calculatePasses windowOrbit zenithLook (windowSat 120000 30000) () 0 300000) = [Some 60]
   \<and> map duration
         (calculatePasses windowOrbit zenithLook (windowSat 0 30000) () 0 300000) = [Some 60]"
  by (simp add: visibleWindow_windowSat run_thirty_seconds_mid run_thirty_seconds)

end
